theory Spec2Isabelle
  imports Main "HOL-Library.Word"
begin

unbundle bit_operations_syntax

section \<open>Bytes, errors and the library primitives\<close>

type_synonym byte = "8 word"
type_synonym bytes = "byte list"

text \<open>
  The exceptions the modelled code can raise. A raise is the \<open>Inl\<close> branch of a sum;
  a method that mutates an object before raising returns the mutated object next to
  the error.
\<close>

datatype error = ValueError | OverflowError | TypeError | AttributeError | OSError | SecurityError

text \<open>
  \<open>hashlib\<close> and \<open>hmac\<close> are not code of the repository: they are parameters of the
  model. Only their output sizes are built in: an HMAC-SHA256 tag and a SHA-256 hash
  are 256-bit values (\<open>digest()\<close> is their 32 bytes, big-endian), and SHAKE-256 is an
  output stream of which \<open>digest(n)\<close> is the first \<open>n\<close> bytes.
\<close>

record prims =
  hmac_sha256 :: "bytes \<Rightarrow> bytes \<Rightarrow> 256 word"
  sha256 :: "bytes \<Rightarrow> 256 word"
  shake_256 :: "bytes \<Rightarrow> nat \<Rightarrow> byte"

text \<open>\<open>int.to_bytes(n, 'big')\<close>: the \<open>n\<close> big-endian bytes of \<open>v\<close>; OverflowError when
  \<open>v\<close> does not fit.\<close>

fun to_bytes_big :: "nat \<Rightarrow> nat \<Rightarrow> bytes" where
  "to_bytes_big 0 v = []"
| "to_bytes_big (Suc n) v = to_bytes_big n (v div 256) @ [of_nat (v mod 256)]"

definition int_to_bytes :: "nat \<Rightarrow> nat \<Rightarrow> error + bytes" where
  "int_to_bytes v n = (if v < 256 ^ n then Inr (to_bytes_big n v) else Inl OverflowError)"

definition digest :: "256 word \<Rightarrow> bytes" where
  "digest w = to_bytes_big 32 (unat w)"

definition shake_digest :: "prims \<Rightarrow> bytes \<Rightarrow> nat \<Rightarrow> bytes" where
  "shake_digest P msg n = map (shake_256 P msg) [0..<n]"

definition bytes_of :: "string \<Rightarrow> bytes" where
  "bytes_of s = map of_char s"

section \<open>crypto.py\<close>

definition KDF_message :: "bytes \<Rightarrow> bytes option \<Rightarrow> bytes" where
  "KDF_message seed context =
     (case context of Some c \<Rightarrow> seed @ c | None \<Rightarrow> seed) @ bytes_of ''ASEMANTIC_KDF_V1''"

definition KDF :: "prims \<Rightarrow> bytes \<Rightarrow> bytes option \<Rightarrow> bytes" where
  "KDF P seed context = digest (hmac_sha256 P seed (KDF_message seed context))"

definition length_prefix :: "bytes \<Rightarrow> error + bytes" where
  "length_prefix data =
     (case int_to_bytes (length data) 4 of
        Inl e \<Rightarrow> Inl e
      | Inr p \<Rightarrow> Inr (p @ data))"

definition encode :: "bytes \<Rightarrow> bytes \<Rightarrow> bytes \<Rightarrow> error + bytes" where
  "encode domain content evolution_param =
     (case length_prefix domain of
        Inl e \<Rightarrow> Inl e
      | Inr d \<Rightarrow>
          (case length_prefix content of
             Inl e \<Rightarrow> Inl e
           | Inr c \<Rightarrow>
               (case length_prefix evolution_param of
                  Inl e \<Rightarrow> Inl e
                | Inr z \<Rightarrow> Inr (d @ c @ z))))"

lemma length_to_bytes_big [simp]: "length (to_bytes_big n v) = n"
  by (induction n arbitrary: v) simp_all

lemma length_digest [simp]: "length (digest w) = 32"
  by (simp add: digest_def)

text \<open>The counter-mode extension loop of the keyed branch of \<open>compute_fragment\<close>.\<close>

function extend_output :: "prims \<Rightarrow> bytes \<Rightarrow> bytes \<Rightarrow> nat \<Rightarrow> bytes \<Rightarrow> error + bytes" where
  "extend_output P key encoded_input n output =
     (if length output < n then
        (case int_to_bytes (length output) 4 of
           Inl e \<Rightarrow> Inl e
         | Inr counter \<Rightarrow>
             extend_output P key encoded_input n
               (output @ digest (hmac_sha256 P key (encoded_input @ counter))))
      else Inr output)"
  by pat_completeness auto
termination
  by (relation "measure (\<lambda>(P, key, enc, n, output). n - length output)") auto

definition compute_fragment ::
  "prims \<Rightarrow> bytes \<Rightarrow> bytes \<Rightarrow> bytes \<Rightarrow> int \<Rightarrow> bytes option \<Rightarrow> error + bytes" where
  "compute_fragment P domain content evolution_param fragment_length_bits key =
     (if fragment_length_bits < 256 then Inl ValueError
      else
        let fragment_length_bytes = nat (fragment_length_bits div 8) in
        (case encode domain content evolution_param of
           Inl e \<Rightarrow> Inl e
         | Inr encoded_input \<Rightarrow>
             (case key of
                Some k \<Rightarrow>
                  (case extend_output P k encoded_input fragment_length_bytes
                          (digest (hmac_sha256 P k encoded_input)) of
                     Inl e \<Rightarrow> Inl e
                   | Inr output \<Rightarrow> Inr (take fragment_length_bytes output))
              | None \<Rightarrow>
                  Inr (take fragment_length_bytes
                         (shake_digest P encoded_input fragment_length_bytes)))))"

definition constant_time_equal :: "bytes \<Rightarrow> bytes \<Rightarrow> bool" where
  "constant_time_equal a b =
     (if length a \<noteq> length b then False
      else fold (\<lambda>(x, y) diff. diff OR (x XOR y)) (zip a b) (0 :: byte) = 0)"

definition prepare_content :: "prims \<Rightarrow> bytes \<Rightarrow> bool \<Rightarrow> bytes" where
  "prepare_content P content use_hash =
     (if use_hash then digest (sha256 P content) else content)"


definition upper_char :: "char \<Rightarrow> char" where
  "upper_char c =
     (let n = (of_char c :: nat) in if 97 \<le> n \<and> n \<le> 122 then char_of (n - 32) else c)"

definition upper :: "string \<Rightarrow> string" where
  "upper s = map upper_char s"

section \<open>fragment.py: the sender\<close>

text \<open>
  \<open>FragmentBuilder\<close>. \<open>fb_seed\<close> is \<open>self._seed\<close> (None outside Mode A) and
  \<open>fb_evol_func\<close> is \<open>self._evol_func\<close>; an evolution function is taken to be total.
\<close>

record FragmentBuilder =
  fb_domain :: bytes
  fb_mode :: string
  fb_fragment_length :: int
  fb_use_keyed_mode :: bool
  fb_index :: int
  fb_seed :: "bytes option"
  fb_evol_func :: "(int \<Rightarrow> bytes) option"

definition FragmentBuilder_init ::
  "bytes \<Rightarrow> string \<Rightarrow> bytes option \<Rightarrow> (int \<Rightarrow> bytes) option \<Rightarrow> int \<Rightarrow> bool
     \<Rightarrow> error + FragmentBuilder" where
  "FragmentBuilder_init domain mode seed evol_func fragment_length use_keyed_mode =
     (if upper mode = ''A'' then
        (case seed of
           None \<Rightarrow> Inl ValueError
         | Some s \<Rightarrow>
             Inr \<lparr>fb_domain = domain, fb_mode = upper mode,
                  fb_fragment_length = fragment_length, fb_use_keyed_mode = use_keyed_mode,
                  fb_index = 0, fb_seed = Some s, fb_evol_func = None\<rparr>)
      else if upper mode = ''B'' then
        (case evol_func of
           None \<Rightarrow> Inl ValueError
         | Some f \<Rightarrow>
             Inr \<lparr>fb_domain = domain, fb_mode = upper mode,
                  fb_fragment_length = fragment_length, fb_use_keyed_mode = use_keyed_mode,
                  fb_index = 0, fb_seed = None, fb_evol_func = Some f\<rparr>)
      else Inl ValueError)"

definition FragmentBuilder_mode_a :: "bytes \<Rightarrow> bytes \<Rightarrow> int \<Rightarrow> bool \<Rightarrow> error + FragmentBuilder" where
  "FragmentBuilder_mode_a domain seed fragment_length use_keyed_mode =
     FragmentBuilder_init domain ''A'' (Some seed) None fragment_length use_keyed_mode"

definition FragmentBuilder_mode_b :: "bytes \<Rightarrow> (int \<Rightarrow> bytes) \<Rightarrow> int \<Rightarrow> error + FragmentBuilder" where
  "FragmentBuilder_mode_b domain evol_func fragment_length =
     FragmentBuilder_init domain ''B'' None (Some evol_func) fragment_length True"

definition build :: "prims \<Rightarrow> FragmentBuilder \<Rightarrow> bytes \<Rightarrow> bool \<Rightarrow> error + bytes" where
  "build P b content content_is_prepared =
     (let prepared = (if content_is_prepared then content else prepare_content P content True) in
      if fb_mode b = ''A'' then
        (case fb_seed b of
           None \<Rightarrow> Inl TypeError
         | Some s \<Rightarrow>
             let key = (if fb_use_keyed_mode b then Some s else None) in
             compute_fragment P (fb_domain b) prepared s (fb_fragment_length b)
               (if fb_use_keyed_mode b then key else None))
      else
        (case fb_evol_func b of
           None \<Rightarrow> Inl TypeError
         | Some f \<Rightarrow>
             compute_fragment P (fb_domain b) prepared (f (fb_index b)) (fb_fragment_length b)
               None))"



section \<open>state.py: the receiver state and its persistence\<close>

text \<open>
  The persisted JSON object, with the fields the code writes and reads. A seed field
  is absent, a string \<open>bytes.fromhex\<close> rejects, or the hex of some bytes. A file is
  absent, unreadable (\<open>IOError\<close> on open), not JSON, or a stored object.
\<close>

datatype seed_field = NoSeed | BadHex | HexSeed bytes

record blob =
  b_mode :: string
  b_anchor :: "int option"
  b_version :: int
  b_seed :: seed_field
  b_rollback_counter :: "int option"

datatype stored_file = Absent | Unreadable | Malformed | Stored blob

record filesystem =
  files :: "string \<Rightarrow> stored_file"
  write_fails :: bool

record ReceiverState =
  rs_mode :: string
  rs_anchor :: int
  rs_seed :: "bytes option"
  rs_persistence_path :: "string option"

record SecureElementState = ReceiverState +
  rollback_counter :: "int option"

text \<open>Python truthiness of \<open>self._persistence_path\<close>: neither None nor the empty string.\<close>

definition path_set :: "string option \<Rightarrow> bool" where
  "path_set p = (case p of None \<Rightarrow> False | Some s \<Rightarrow> s \<noteq> [])"

definition path_exists :: "filesystem \<Rightarrow> string option \<Rightarrow> bool" where
  "path_exists fs p = (case p of None \<Rightarrow> False | Some s \<Rightarrow> files fs s \<noteq> Absent)"

text \<open>\<open>ReceiverState._load_state\<close>: the result and the state as the call leaves it.\<close>

definition load_state ::
  "filesystem \<Rightarrow> ReceiverState \<Rightarrow> (error + unit) \<times> ReceiverState" where
  "load_state fs st =
     (if \<not> path_set (rs_persistence_path st) \<or> \<not> path_exists fs (rs_persistence_path st)
      then (Inr (), st)
      else
        (case files fs (the (rs_persistence_path st)) of
           Stored state \<Rightarrow>
             let loaded_anchor = (case b_anchor state of None \<Rightarrow> 0 | Some a \<Rightarrow> a) in
             if loaded_anchor \<ge> rs_anchor st then
               let st1 = st\<lparr>rs_anchor := loaded_anchor\<rparr> in
               if rs_mode st1 = ''A'' then
                 (case b_seed state of
                    NoSeed \<Rightarrow> (Inr (), st1)
                  | BadHex \<Rightarrow> (Inl ValueError, st1)
                  | HexSeed s \<Rightarrow> (Inr (), st1\<lparr>rs_seed := Some s\<rparr>))
               else (Inr (), st1)
             else (Inr (), st)
         | _ \<Rightarrow> (Inr (), st)))"

text \<open>
  \<open>SecureElementState._load_state\<close>. \<open>rollback_counter\<close> is None while the attribute
  is not yet set, which is the case when \<open>ReceiverState.__init__\<close> calls the method.
\<close>

definition se_load_state ::
  "filesystem \<Rightarrow> SecureElementState \<Rightarrow> (error + unit) \<times> SecureElementState" where
  "se_load_state fs st =
     (if \<not> path_set (rs_persistence_path st) \<or> \<not> path_exists fs (rs_persistence_path st)
      then (Inr (), st)
      else
        (case files fs (the (rs_persistence_path st)) of
           Stored state \<Rightarrow>
             let loaded_counter = (case b_rollback_counter state of None \<Rightarrow> 0 | Some c \<Rightarrow> c) in
             (case rollback_counter st of
                None \<Rightarrow> (Inl AttributeError, st)
              | Some current \<Rightarrow>
                  if loaded_counter < current then (Inl SecurityError, st)
                  else
                    let st1 = st\<lparr>rs_anchor := (case b_anchor state of None \<Rightarrow> 0 | Some a \<Rightarrow> a),
                                  rollback_counter := Some loaded_counter\<rparr> in
                    if rs_mode st1 = ''A'' then
                      (case b_seed state of
                         NoSeed \<Rightarrow> (Inr (), st1)
                       | BadHex \<Rightarrow> (Inl ValueError, st1)
                       | HexSeed s \<Rightarrow> (Inr (), st1\<lparr>rs_seed := Some s\<rparr>))
                    else (Inr (), st1))
         | _ \<Rightarrow> (Inr (), st)))"

definition ReceiverState_init ::
  "filesystem \<Rightarrow> string \<Rightarrow> int \<Rightarrow> bytes option \<Rightarrow> string option \<Rightarrow> error + ReceiverState" where
  "ReceiverState_init fs mode anchor seed persistence_path =
     (if upper mode = ''A'' \<and> seed = None then Inl ValueError
      else
        let st = \<lparr>rs_mode = upper mode, rs_anchor = anchor,
                  rs_seed = (if upper mode = ''A'' then seed else None),
                  rs_persistence_path = persistence_path\<rparr> in
        if path_set persistence_path \<and> path_exists fs persistence_path then
          (case load_state fs st of
             (Inl e, st') \<Rightarrow> Inl e
           | (Inr u, st') \<Rightarrow> Inr st')
        else Inr st)"


section \<open>validator.py and the objects a validation touches\<close>

datatype ValidationResult = ACCEPT | REJECT | ERROR

type_synonym outcome = "ValidationResult \<times> int option"

record stats =
  total_validations :: int
  accepts :: int
  rejects :: int
  comparisons :: int

text \<open>The class of a validator object decides which \<open>_validate_mode_a\<close> runs.\<close>

datatype validator_class = FragmentValidatorClass | ConstantTimeValidatorClass

record FragmentValidator =
  fv_class :: validator_class
  fv_domain :: bytes
  fv_window_size :: int
  fv_fragment_length :: int
  fv_use_keyed_mode :: bool
  fv_evol_func :: "(int \<Rightarrow> bytes) option"
  fv_stats :: stats

text \<open>
  The mutable objects of a receiver: the validator (its statistics change), the
  receiver state and the file system behind the persistence path. Every method takes
  the heap and returns it as the call leaves it, also when it raises.
\<close>

record heap =
  validator :: FragmentValidator
  receiver :: ReceiverState
  disk :: filesystem

definition count_validation :: "heap \<Rightarrow> heap" where
  "count_validation h =
     h\<lparr>validator := (validator h)\<lparr>fv_stats := (fv_stats (validator h))
        \<lparr>total_validations := total_validations (fv_stats (validator h)) + 1\<rparr>\<rparr>\<rparr>"

definition count_comparison :: "heap \<Rightarrow> heap" where
  "count_comparison h =
     h\<lparr>validator := (validator h)\<lparr>fv_stats := (fv_stats (validator h))
        \<lparr>comparisons := comparisons (fv_stats (validator h)) + 1\<rparr>\<rparr>\<rparr>"

definition count_accept :: "heap \<Rightarrow> heap" where
  "count_accept h =
     h\<lparr>validator := (validator h)\<lparr>fv_stats := (fv_stats (validator h))
        \<lparr>accepts := accepts (fv_stats (validator h)) + 1\<rparr>\<rparr>\<rparr>"

definition count_reject :: "heap \<Rightarrow> heap" where
  "count_reject h =
     h\<lparr>validator := (validator h)\<lparr>fv_stats := (fv_stats (validator h))
        \<lparr>rejects := rejects (fv_stats (validator h)) + 1\<rparr>\<rparr>\<rparr>"

subsection \<open>ReceiverState methods\<close>

text \<open>The loop of \<open>get_seed_for_index\<close>: \<open>n\<close> applications of \<open>KDF\<close>.\<close>

fun derive_forward :: "prims \<Rightarrow> nat \<Rightarrow> bytes \<Rightarrow> bytes" where
  "derive_forward P 0 current = current"
| "derive_forward P (Suc n) current = derive_forward P n (KDF P current None)"

definition get_seed_for_index :: "prims \<Rightarrow> heap \<Rightarrow> int \<Rightarrow> error + bytes option" where
  "get_seed_for_index P h index =
     (if rs_mode (receiver h) \<noteq> ''A'' then Inr None
      else if index < rs_anchor (receiver h) then Inr None
      else
        (case rs_seed (receiver h) of
           None \<Rightarrow> Inl TypeError
         | Some s \<Rightarrow> Inr (Some (derive_forward P (nat (index - rs_anchor (receiver h))) s))))"

text \<open>
  \<open>ReceiverState._save_state\<close>: write to the temporary file, then rename. A failing
  write leaves the file at the path as it was and re-raises.
\<close>

definition save_state :: "heap \<Rightarrow> (error + unit) \<times> heap" where
  "save_state h =
     (if \<not> path_set (rs_persistence_path (receiver h)) then (Inr (), h)
      else
        let state = \<lparr>b_mode = rs_mode (receiver h), b_anchor = Some (rs_anchor (receiver h)),
                     b_version = 1,
                     b_seed = (case rs_seed (receiver h) of
                                 Some s \<Rightarrow>
                                   if rs_mode (receiver h) = ''A'' \<and> s \<noteq> [] then HexSeed s
                                   else NoSeed
                               | None \<Rightarrow> NoSeed),
                     b_rollback_counter = None\<rparr> in
        if write_fails (disk h) then (Inl OSError, h)
        else
          (Inr (),
           h\<lparr>disk := (disk h)\<lparr>files := (files (disk h))
               (the (rs_persistence_path (receiver h)) := Stored state)\<rparr>\<rparr>))"

text \<open>\<open>ReceiverState.advance\<close>. In Mode A the old seed buffer is erased after the
  new seed and anchor are in place; \<open>secure_erase\<close> raises on a missing buffer.\<close>

definition persist_if_configured :: "heap \<Rightarrow> (error + bool) \<times> heap" where
  "persist_if_configured h =
     (if path_set (rs_persistence_path (receiver h)) then
        (case save_state h of
           (Inl e, h') \<Rightarrow> (Inl e, h')
         | (Inr u, h') \<Rightarrow> (Inr True, h'))
      else (Inr True, h))"

definition advance :: "int \<Rightarrow> bytes option \<Rightarrow> heap \<Rightarrow> (error + bool) \<times> heap" where
  "advance new_anchor new_seed h =
     (if new_anchor \<le> rs_anchor (receiver h) then (Inr False, h)
      else if rs_mode (receiver h) = ''A'' then
        (case new_seed of
           None \<Rightarrow> (Inr False, h)
         | Some s \<Rightarrow>
             let old_seed = rs_seed (receiver h);
                 h1 = h\<lparr>receiver := (receiver h)\<lparr>rs_seed := Some s, rs_anchor := new_anchor\<rparr>\<rparr>
             in (case old_seed of
                   None \<Rightarrow> (Inl TypeError, h1)
                 | Some old \<Rightarrow> persist_if_configured h1))
      else
        persist_if_configured (h\<lparr>receiver := (receiver h)\<lparr>rs_anchor := new_anchor\<rparr>\<rparr>))"

subsection \<open>FragmentValidator\<close>

text \<open>
  The loop of \<open>FragmentValidator._validate_mode_a\<close> over the rest \<open>js\<close> of the window,
  with the local \<open>current_seed\<close>.
\<close>

fun validate_mode_a_loop ::
  "prims \<Rightarrow> bytes \<Rightarrow> bytes \<Rightarrow> int list \<Rightarrow> bytes \<Rightarrow> heap \<Rightarrow> (error + outcome) \<times> heap" where
  "validate_mode_a_loop P fragment_rx content [] current_seed h =
     (Inr (REJECT, None), count_reject h)"
| "validate_mode_a_loop P fragment_rx content (j # js) current_seed h =
     (let h1 = count_comparison h in
      case compute_fragment P (fv_domain (validator h1)) content current_seed
             (fv_fragment_length (validator h1))
             (if fv_use_keyed_mode (validator h1) then Some current_seed else None) of
        Inl e \<Rightarrow> (Inl e, h1)
      | Inr expected \<Rightarrow>
          if constant_time_equal expected fragment_rx then (Inr (ACCEPT, Some j), count_accept h1)
          else validate_mode_a_loop P fragment_rx content js (KDF P current_seed None) h1)"

definition validate_mode_a ::
  "prims \<Rightarrow> bytes \<Rightarrow> bytes \<Rightarrow> int list \<Rightarrow> heap \<Rightarrow> (error + outcome) \<times> heap" where
  "validate_mode_a P fragment_rx content window h =
     (case rs_seed (receiver h) of
        None \<Rightarrow> (Inr (ERROR, None), h)
      | Some current_seed \<Rightarrow> validate_mode_a_loop P fragment_rx content window current_seed h)"

fun validate_mode_b_loop ::
  "prims \<Rightarrow> (int \<Rightarrow> bytes) \<Rightarrow> bytes \<Rightarrow> bytes \<Rightarrow> int list \<Rightarrow> heap \<Rightarrow> (error + outcome) \<times> heap" where
  "validate_mode_b_loop P evol fragment_rx content [] h = (Inr (REJECT, None), count_reject h)"
| "validate_mode_b_loop P evol fragment_rx content (j # js) h =
     (let h1 = count_comparison h;
          evolution_param = evol j in
      case compute_fragment P (fv_domain (validator h1)) content evolution_param
             (fv_fragment_length (validator h1)) None of
        Inl e \<Rightarrow> (Inl e, h1)
      | Inr expected \<Rightarrow>
          if constant_time_equal expected fragment_rx then (Inr (ACCEPT, Some j), count_accept h1)
          else validate_mode_b_loop P evol fragment_rx content js h1)"

definition validate_mode_b ::
  "prims \<Rightarrow> bytes \<Rightarrow> bytes \<Rightarrow> int list \<Rightarrow> heap \<Rightarrow> (error + outcome) \<times> heap" where
  "validate_mode_b P fragment_rx content window h =
     (case fv_evol_func (validator h) of
        None \<Rightarrow> (Inr (ERROR, None), h)
      | Some evol \<Rightarrow> validate_mode_b_loop P evol fragment_rx content window h)"

text \<open>
  The loop of \<open>ConstantTimeValidator._validate_mode_a\<close>, with the locals
  \<open>current_seed\<close> and \<open>matched_index\<close>.
\<close>

fun ct_validate_mode_a_loop ::
  "prims \<Rightarrow> bytes \<Rightarrow> bytes \<Rightarrow> int list \<Rightarrow> bytes \<Rightarrow> int option \<Rightarrow> heap
     \<Rightarrow> (error + outcome) \<times> heap" where
  "ct_validate_mode_a_loop P fragment_rx content [] current_seed matched_index h =
     (if matched_index \<noteq> None then (Inr (ACCEPT, matched_index), count_accept h)
      else (Inr (REJECT, None), count_reject h))"
| "ct_validate_mode_a_loop P fragment_rx content (j # js) current_seed matched_index h =
     (let h1 = count_comparison h in
      case compute_fragment P (fv_domain (validator h1)) content current_seed
             (fv_fragment_length (validator h1))
             (if fv_use_keyed_mode (validator h1) then Some current_seed else None) of
        Inl e \<Rightarrow> (Inl e, h1)
      | Inr expected \<Rightarrow>
          ct_validate_mode_a_loop P fragment_rx content js (KDF P current_seed None)
            (if constant_time_equal expected fragment_rx
             then (if matched_index = None then Some j else matched_index)
             else matched_index) h1)"

definition ct_validate_mode_a ::
  "prims \<Rightarrow> bytes \<Rightarrow> bytes \<Rightarrow> int list \<Rightarrow> heap \<Rightarrow> (error + outcome) \<times> heap" where
  "ct_validate_mode_a P fragment_rx content window h =
     (case rs_seed (receiver h) of
        None \<Rightarrow> (Inr (ERROR, None), h)
      | Some current_seed \<Rightarrow>
          ct_validate_mode_a_loop P fragment_rx content window current_seed None h)"

text \<open>
  \<open>validate\<close>, for an object of either class: \<open>_validate_mode_a\<close> is the method of
  the object's class, \<open>_validate_mode_b\<close> is the one \<open>FragmentValidator\<close> defines (the
  subclass does not override it). \<open>range(anchor, anchor + window_size + 1)\<close> is the list
  \<open>[anchor..anchor + window_size]\<close>.
\<close>

definition validate ::
  "prims \<Rightarrow> bytes \<Rightarrow> bytes \<Rightarrow> bool \<Rightarrow> heap \<Rightarrow> (error + outcome) \<times> heap" where
  "validate P fragment_rx content content_is_prepared h =
     (let h1 = count_validation h;
          expected_length = fv_fragment_length (validator h1) div 8 in
      if int (length fragment_rx) \<noteq> expected_length then (Inr (ERROR, None), h1)
      else
        let prepared_content =
              (if content_is_prepared then content else prepare_content P content True);
            anchor = rs_anchor (receiver h1);
            window = [anchor..anchor + fv_window_size (validator h1)] in
        if rs_mode (receiver h1) = ''A'' then
          (case fv_class (validator h1) of
             FragmentValidatorClass \<Rightarrow> validate_mode_a P fragment_rx prepared_content window h1
           | ConstantTimeValidatorClass \<Rightarrow>
               ct_validate_mode_a P fragment_rx prepared_content window h1)
        else validate_mode_b P fragment_rx prepared_content window h1)"

definition validate_and_commit ::
  "prims \<Rightarrow> bytes \<Rightarrow> bytes \<Rightarrow> bool \<Rightarrow> heap \<Rightarrow> (error + outcome) \<times> heap" where
  "validate_and_commit P fragment_rx content content_is_prepared h =
     (case validate P fragment_rx content content_is_prepared h of
        (Inl e, h1) \<Rightarrow> (Inl e, h1)
      | (Inr (result, matched_index), h1) \<Rightarrow>
          (case matched_index of
             Some j \<Rightarrow>
               if result = ACCEPT then
                 (case (if rs_mode (receiver h1) = ''A'' then get_seed_for_index P h1 (j + 1)
                        else Inr None) of
                    Inl e \<Rightarrow> (Inl e, h1)
                  | Inr new_seed \<Rightarrow>
                      (case advance (j + 1) new_seed h1 of
                         (Inl e, h2) \<Rightarrow> (Inl e, h2)
                       | (Inr success, h2) \<Rightarrow>
                           if \<not> success then (Inr (ERROR, None), h2)
                           else (Inr (result, matched_index), h2)))
               else (Inr (result, matched_index), h1)
           | None \<Rightarrow> (Inr (result, matched_index), h1)))"

section \<open>Vocabulary of the statements\<close>

text \<open>
  \<open>seed_fragment\<close> is the expected fragment that an iteration of \<open>_validate_mode_a\<close>
  computes from the validator's configuration and \<open>current_seed\<close>. \<open>aligned\<close> is
  the alignment of a Mode A sender with the receiver of a heap at the seed \<open>K\<close>.
  \<open>provisioned\<close> collects the provisioning constraints a validator relies on: a
  fragment length of at least 256 bits, a window width of at least 0, a domain tag
  whose length fits the encoder's four-byte prefix, and in keyed mode a fragment of
  at most \<open>2^32\<close> bytes (the counter of the extension loop has four bytes).
\<close>

definition seed_fragment :: "prims \<Rightarrow> FragmentValidator \<Rightarrow> bytes \<Rightarrow> bytes \<Rightarrow> error + bytes" where
  "seed_fragment P v content current_seed =
     compute_fragment P (fv_domain v) content current_seed (fv_fragment_length v)
       (if fv_use_keyed_mode v then Some current_seed else None)"

definition aligned :: "FragmentBuilder \<Rightarrow> heap \<Rightarrow> bytes \<Rightarrow> bool" where
  "aligned b h K =
     (fb_mode b = ''A'' \<and> rs_mode (receiver h) = ''A''
      \<and> fb_seed b = Some K \<and> rs_seed (receiver h) = Some K
      \<and> fb_index b = rs_anchor (receiver h)
      \<and> fb_domain b = fv_domain (validator h)
      \<and> fb_fragment_length b = fv_fragment_length (validator h)
      \<and> fb_use_keyed_mode b = fv_use_keyed_mode (validator h))"

definition provisioned :: "FragmentValidator \<Rightarrow> bool" where
  "provisioned v =
     (length (fv_domain v) < 2 ^ 32 \<and> 256 \<le> fv_fragment_length v
      \<and> (fv_use_keyed_mode v \<longrightarrow> fv_fragment_length v div 8 \<le> 2 ^ 32)
      \<and> 0 \<le> fv_window_size v)"

section \<open>Concrete instances\<close>

text \<open>
  Small inputs on which the statements below are instantiated: stand-ins for the
  library primitives, a receiver with a persisted file, and a file older than the
  state in memory.
\<close>

definition example_prims :: prims where
  "example_prims =
     \<lparr>hmac_sha256 = (\<lambda>key msg. if key = [] then 0 else 1),
      sha256 = (\<lambda>msg. 0),
      shake_256 = (\<lambda>msg i. 0)\<rparr>"

definition rollback_blob :: blob where
  "rollback_blob =
     \<lparr>b_mode = ''A'', b_anchor = Some 5, b_version = 1, b_seed = HexSeed [7],
      b_rollback_counter = Some 3\<rparr>"

definition rollback_fs :: filesystem where
  "rollback_fs = \<lparr>files = (\<lambda>p. if p = ''state.json'' then Stored rollback_blob else Absent),
                   write_fails = False\<rparr>"

definition rollback_state :: ReceiverState where
  "rollback_state =
     \<lparr>rs_mode = ''A'', rs_anchor = 10, rs_seed = Some [9],
      rs_persistence_path = Some ''state.json''\<rparr>"

definition rollback_se_state :: "int \<Rightarrow> SecureElementState" where
  "rollback_se_state counter =
     \<lparr>rs_mode = ''A'', rs_anchor = 10, rs_seed = Some [9],
      rs_persistence_path = Some ''state.json'', rollback_counter = Some counter\<rparr>"

definition example_heap :: heap where
  "example_heap =
     \<lparr>validator = \<lparr>fv_class = FragmentValidatorClass, fv_domain = [], fv_window_size = 1,
                   fv_fragment_length = 256, fv_use_keyed_mode = True, fv_evol_func = None,
                   fv_stats = \<lparr>total_validations = 0, accepts = 0, rejects = 0, comparisons = 0\<rparr>\<rparr>,
      receiver = \<lparr>rs_mode = ''A'', rs_anchor = 0, rs_seed = Some [],
                  rs_persistence_path = Some ''state.json''\<rparr>,
      disk = \<lparr>files = (\<lambda>p. Absent), write_fails = False\<rparr>\<rparr>"

definition example_builder :: FragmentBuilder where
  "example_builder =
     \<lparr>fb_domain = [], fb_mode = ''A'', fb_fragment_length = 256, fb_use_keyed_mode = True,
      fb_index = 0, fb_seed = Some [], fb_evol_func = None\<rparr>"

definition narrow_heap :: heap where
  "narrow_heap = example_heap\<lparr>validator := (validator example_heap)\<lparr>fv_window_size := 0\<rparr>\<rparr>"

definition failing_heap :: heap where
  "failing_heap = example_heap\<lparr>disk := \<lparr>files = (\<lambda>p. Absent), write_fails = True\<rparr>\<rparr>"

definition counter_evol :: "int \<Rightarrow> bytes" where
  "counter_evol i = to_bytes_big 8 (nat i)"

definition mode_b_heap :: heap where
  "mode_b_heap =
     \<lparr>validator = \<lparr>fv_class = ConstantTimeValidatorClass, fv_domain = [], fv_window_size = 7,
                   fv_fragment_length = 256, fv_use_keyed_mode = False,
                   fv_evol_func = Some counter_evol,
                   fv_stats = \<lparr>total_validations = 0, accepts = 0, rejects = 0, comparisons = 0\<rparr>\<rparr>,
      receiver = \<lparr>rs_mode = ''B'', rs_anchor = 0, rs_seed = None, rs_persistence_path = None\<rparr>,
      disk = \<lparr>files = (\<lambda>p. Absent), write_fails = False\<rparr>\<rparr>"

section \<open>Facts about the primitives of crypto.py\<close>

lemma fold_or_xor_zero:
  "length a = length b \<Longrightarrow>
   (fold (\<lambda>(x, y) diff. diff OR (x XOR y)) (zip a b) acc = (0::byte)) = (acc = 0 \<and> a = b)"
proof (induction a b arbitrary: acc rule: list_induct2)
  case Nil
  then show ?case by simp
next
  case (Cons x xs y ys)
  have "(x XOR y = 0) = (x = y)"
    by (metis bit.xor_left_self xor.right_neutral)
  then have "(acc OR (x XOR y) = 0) = (acc = 0 \<and> x = y)"
    by (simp add: or_eq_0_iff)
  with Cons show ?case by auto
qed

lemma constant_time_equal_iff: "constant_time_equal a b = (a = b)"
  by (auto simp: constant_time_equal_def fold_or_xor_zero)

lemma to_bytes_big_inj:
  "v < 256 ^ n \<Longrightarrow> w < 256 ^ n \<Longrightarrow> to_bytes_big n v = to_bytes_big n w \<Longrightarrow> v = w"
proof (induction n arbitrary: v w)
  case 0
  then show ?case by simp
next
  case (Suc n)
  from Suc.prems have d: "v div 256 < 256 ^ n" "w div 256 < 256 ^ n"
    by (simp_all add: less_mult_imp_div_less mult.commute)
  from Suc.prems(3) have e: "to_bytes_big n (v div 256) = to_bytes_big n (w div 256)"
    and m: "(of_nat (v mod 256) :: byte) = of_nat (w mod 256)"
    by simp_all
  from Suc.IH[OF d e] have "v div 256 = w div 256" .
  moreover from m have "v mod 256 = w mod 256"
    by (simp add: word_of_nat_eq_iff take_bit_eq_mod)
  ultimately show ?case
    by (metis div_mult_mod_eq)
qed

lemma digest_inj: "digest v = digest w \<Longrightarrow> v = w"
proof -
  assume a: "digest v = digest w"
  have "unat v < 256 ^ 32" "unat w < 256 ^ 32"
    using unsigned_less[of v, where 'a=nat] unsigned_less[of w, where 'a=nat] by simp_all
  with a have "unat v = unat w"
    unfolding digest_def by (rule to_bytes_big_inj[rotated 2])
  then show ?thesis by (simp add: word_unat_eq_iff)
qed

lemma length_prefix_ok:
  "length d < 2 ^ 32 \<Longrightarrow> length_prefix d = Inr (to_bytes_big 4 (length d) @ d)"
  by (simp add: length_prefix_def int_to_bytes_def)

lemma encode_ok:
  "length D < 2 ^ 32 \<Longrightarrow> length C < 2 ^ 32 \<Longrightarrow> length Z < 2 ^ 32 \<Longrightarrow>
   encode D C Z =
     Inr ((to_bytes_big 4 (length D) @ D) @ (to_bytes_big 4 (length C) @ C)
          @ (to_bytes_big 4 (length Z) @ Z))"
  by (simp add: encode_def length_prefix_ok)

lemma prefixed_inj:
  assumes "length d < 2 ^ 32" "length d' < 2 ^ 32"
    and "to_bytes_big 4 (length d) @ d @ r = to_bytes_big 4 (length d') @ d' @ r'"
  shows "d = d' \<and> r = r'"
proof -
  from assms(3) have p: "to_bytes_big 4 (length d) = to_bytes_big 4 (length d')"
    and q: "d @ r = d' @ r'"
    by simp_all
  from assms(1,2) have "length d < 256 ^ 4" "length d' < 256 ^ 4" by simp_all
  from to_bytes_big_inj[OF this p] have "length d = length d'" .
  with q show ?thesis by simp
qed

lemma encode_inj:
  assumes "length D < 2 ^ 32" "length C < 2 ^ 32" "length Z < 2 ^ 32"
    and "length D' < 2 ^ 32" "length C' < 2 ^ 32" "length Z' < 2 ^ 32"
    and "encode D C Z = encode D' C' Z'"
  shows "D = D' \<and> C = C' \<and> Z = Z'"
proof -
  from assms have e:
    "to_bytes_big 4 (length D) @ D @ (to_bytes_big 4 (length C) @ C @ to_bytes_big 4 (length Z) @ Z @ [])
     = to_bytes_big 4 (length D') @ D' @ (to_bytes_big 4 (length C') @ C' @ to_bytes_big 4 (length Z') @ Z' @ [])"
    by (simp add: encode_ok)
  from prefixed_inj[OF assms(1) assms(4) e] have 1: "D = D'"
    and e2: "to_bytes_big 4 (length C) @ C @ (to_bytes_big 4 (length Z) @ Z @ [])
      = to_bytes_big 4 (length C') @ C' @ (to_bytes_big 4 (length Z') @ Z' @ [])"
    by simp_all
  from prefixed_inj[OF assms(2) assms(5) e2] have 2: "C = C'"
    and e3: "to_bytes_big 4 (length Z) @ Z @ [] = to_bytes_big 4 (length Z') @ Z' @ []"
    by simp_all
  from prefixed_inj[OF assms(3) assms(6) e3] have "Z = Z'" by simp
  with 1 2 show ?thesis by simp
qed

lemma extend_output_ok:
  "n \<le> 2 ^ 32 \<Longrightarrow> \<exists>out. extend_output P k enc n acc = Inr out \<and> n \<le> length out"
proof (induction P k enc n acc rule: extend_output.induct)
  case (1 P key encoded_input n acc)
  show ?case
  proof (cases "length acc < n")
    case True
    with 1(2) have lt: "length acc < 256 ^ 4" by simp
    then have c: "int_to_bytes (length acc) 4 = Inr (to_bytes_big 4 (length acc))"
      by (simp add: int_to_bytes_def)
    from 1(1)[OF True c 1(2)] show ?thesis
      using True c by (subst extend_output.simps) simp
  next
    case False
    then show ?thesis by (subst extend_output.simps) simp
  qed
qed

lemma compute_fragment_ok:
  assumes "256 \<le> l" "length D < 2 ^ 32" "length C < 2 ^ 32" "length Z < 2 ^ 32"
    and "key \<noteq> None \<longrightarrow> l div 8 \<le> 2 ^ 32"
  shows "\<exists>f. compute_fragment P D C Z l key = Inr f \<and> int (length f) = l div 8"
proof (cases key)
  case None
  with assms show ?thesis
    by (simp add: compute_fragment_def encode_ok shake_digest_def Let_def)
next
  case (Some k)
  with assms(1,5) have n: "nat (l div 8) \<le> 2 ^ 32" by simp
  obtain enc where enc: "encode D C Z = Inr enc"
    using encode_ok[OF assms(2-4)] by blast
  from extend_output_ok[OF n] obtain out where
    out: "extend_output P k enc (nat (l div 8)) (digest (hmac_sha256 P k enc)) = Inr out"
      "nat (l div 8) \<le> length out"
    by blast
  with assms(1) Some enc show ?thesis
    by (simp add: compute_fragment_def Let_def)
qed

lemma upper_A: "upper ''A'' = ''A''" by code_simp
lemma upper_a: "upper ''a'' = ''A''" by code_simp
lemma upper_b: "upper ''b'' = ''B''" by code_simp

lemma KDF_message_context: "(KDF_message K (Some c) = KDF_message K None) = (c = [])"
  by (simp add: KDF_message_def)

lemma KDF_eq_iff:
  "(KDF P K c = KDF P K c') =
   (hmac_sha256 P K (KDF_message K c) = hmac_sha256 P K (KDF_message K c'))"
  unfolding KDF_def by (auto dest: digest_inj)

lemma init_Inr_fields:
  assumes "FragmentBuilder_init domain mode seed evol l keyed = Inr b"
  shows "fb_fragment_length b = l
     \<and> (fb_mode b = ''A'' \<longrightarrow> fb_seed b \<noteq> None)
     \<and> (fb_mode b \<noteq> ''A'' \<longrightarrow> fb_evol_func b \<noteq> None)"
  using assms
  by (auto simp: FragmentBuilder_init_def split: if_splits option.splits)

lemma build_short_length:
  assumes "fb_fragment_length b < 256"
    and "fb_mode b = ''A'' \<longrightarrow> fb_seed b \<noteq> None"
    and "fb_mode b \<noteq> ''A'' \<longrightarrow> fb_evol_func b \<noteq> None"
  shows "build P b content prepared = Inl ValueError"
  using assms by (auto simp: build_def compute_fragment_def Let_def split: option.splits)

lemma receiver_count [simp]:
  "receiver (count_validation h) = receiver h"
  "receiver (count_comparison h) = receiver h"
  "receiver (count_accept h) = receiver h"
  "receiver (count_reject h) = receiver h"
  by (simp_all add: count_validation_def count_comparison_def count_accept_def count_reject_def)

lemma disk_count [simp]:
  "disk (count_validation h) = disk h"
  "disk (count_comparison h) = disk h"
  "disk (count_accept h) = disk h"
  "disk (count_reject h) = disk h"
  by (simp_all add: count_validation_def count_comparison_def count_accept_def count_reject_def)

lemma config_count [simp]:
  "fv_class (validator (count_validation h)) = fv_class (validator h)"
  "fv_domain (validator (count_validation h)) = fv_domain (validator h)"
  "fv_window_size (validator (count_validation h)) = fv_window_size (validator h)"
  "fv_fragment_length (validator (count_validation h)) = fv_fragment_length (validator h)"
  "fv_use_keyed_mode (validator (count_validation h)) = fv_use_keyed_mode (validator h)"
  "fv_evol_func (validator (count_validation h)) = fv_evol_func (validator h)"
  "fv_domain (validator (count_comparison h)) = fv_domain (validator h)"
  "fv_fragment_length (validator (count_comparison h)) = fv_fragment_length (validator h)"
  "fv_use_keyed_mode (validator (count_comparison h)) = fv_use_keyed_mode (validator h)"
  by (simp_all add: count_validation_def count_comparison_def)

lemma validate_mode_a_loop_frame:
  "receiver (snd (validate_mode_a_loop P frx content js cur h)) = receiver h
   \<and> disk (snd (validate_mode_a_loop P frx content js cur h)) = disk h"
  by (induction js arbitrary: cur h) (auto simp: Let_def split: sum.splits)

lemma validate_mode_b_loop_frame:
  "receiver (snd (validate_mode_b_loop P evol frx content js h)) = receiver h
   \<and> disk (snd (validate_mode_b_loop P evol frx content js h)) = disk h"
  by (induction js arbitrary: h) (auto simp: Let_def split: sum.splits)

lemma ct_validate_mode_a_loop_frame:
  "receiver (snd (ct_validate_mode_a_loop P frx content js cur m h)) = receiver h
   \<and> disk (snd (ct_validate_mode_a_loop P frx content js cur m h)) = disk h"
  by (induction js arbitrary: cur m h) (auto simp: Let_def split: sum.splits)

lemma validate_frame:
  "receiver (snd (validate P frx content prepared h)) = receiver h
   \<and> disk (snd (validate P frx content prepared h)) = disk h"
  by (simp add: validate_def validate_mode_a_def validate_mode_b_def ct_validate_mode_a_def
      Let_def validate_mode_a_loop_frame validate_mode_b_loop_frame ct_validate_mode_a_loop_frame
      split: option.splits validator_class.splits)

lemma persist_ok:
  "path_set (rs_persistence_path (receiver h)) \<longrightarrow> \<not> write_fails (disk h) \<Longrightarrow>
   fst (persist_if_configured h) = Inr True \<and> receiver (snd (persist_if_configured h)) = receiver h"
  by (auto simp: persist_if_configured_def save_state_def Let_def)

lemma persist_receiver: "receiver (snd (persist_if_configured h)) = receiver h"
  by (auto simp: persist_if_configured_def save_state_def Let_def)

lemma persist_result: "fst (persist_if_configured h) \<noteq> Inr False"
  by (auto simp: persist_if_configured_def save_state_def Let_def)

section \<open>The window scan\<close>

lemma seed_fragment_count [simp]:
  "seed_fragment P (validator (count_comparison h)) = seed_fragment P (validator h)"
  "seed_fragment P (validator (count_validation h)) = seed_fragment P (validator h)"
  by (simp_all add: seed_fragment_def fun_eq_iff)

lemma provisioned_count [simp]:
  "provisioned (validator (count_comparison h)) = provisioned (validator h)"
  "provisioned (validator (count_validation h)) = provisioned (validator h)"
  by (simp_all add: provisioned_def count_comparison_def count_validation_def)

lemma comparisons_count [simp]:
  "comparisons (fv_stats (validator (count_comparison h))) = comparisons (fv_stats (validator h)) + 1"
  "comparisons (fv_stats (validator (count_validation h))) = comparisons (fv_stats (validator h))"
  "comparisons (fv_stats (validator (count_accept h))) = comparisons (fv_stats (validator h))"
  "comparisons (fv_stats (validator (count_reject h))) = comparisons (fv_stats (validator h))"
  by (simp_all add: count_validation_def count_comparison_def count_accept_def count_reject_def)

lemma validate_mode_a_loop_Cons:
  "validate_mode_a_loop P frx content (j # js) cur h =
     (case seed_fragment P (validator h) content cur of
        Inl e \<Rightarrow> (Inl e, count_comparison h)
      | Inr expected \<Rightarrow>
          if expected = frx then (Inr (ACCEPT, Some j), count_accept (count_comparison h))
          else validate_mode_a_loop P frx content js (KDF P cur None) (count_comparison h))"
  by (simp add: Let_def seed_fragment_def constant_time_equal_iff split: sum.splits)

lemma ct_validate_mode_a_loop_Cons:
  "ct_validate_mode_a_loop P frx content (j # js) cur m h =
     (case seed_fragment P (validator h) content cur of
        Inl e \<Rightarrow> (Inl e, count_comparison h)
      | Inr expected \<Rightarrow>
          ct_validate_mode_a_loop P frx content js (KDF P cur None)
            (if expected = frx then (if m = None then Some j else m) else m)
            (count_comparison h))"
  by (simp add: Let_def seed_fragment_def constant_time_equal_iff split: sum.splits)

declare validate_mode_a_loop.simps(2) [simp del]
declare ct_validate_mode_a_loop.simps(2) [simp del]

lemma loop_a_accept:
  assumes "m < length js"
    and "seed_fragment P (validator h) content (derive_forward P m cur) = Inr frx"
    and "\<forall>i<m. \<exists>f. seed_fragment P (validator h) content (derive_forward P i cur) = Inr f \<and> f \<noteq> frx"
  shows "fst (validate_mode_a_loop P frx content js cur h) = Inr (ACCEPT, Some (js ! m))
     \<and> comparisons (fv_stats (validator (snd (validate_mode_a_loop P frx content js cur h))))
         = comparisons (fv_stats (validator h)) + int m + 1"
  using assms
proof (induction js arbitrary: m cur h)
  case Nil
  then show ?case by simp
next
  case (Cons j js)
  show ?case
  proof (cases m)
    case 0
    with Cons.prems show ?thesis by (simp add: validate_mode_a_loop_Cons)
  next
    case (Suc m')
    from Cons.prems(3) Suc obtain f where
      f: "seed_fragment P (validator h) content cur = Inr f" "f \<noteq> frx"
      by fastforce
    have a: "m' < length js" using Cons.prems(1) Suc by simp
    have b: "seed_fragment P (validator (count_comparison h)) content
               (derive_forward P m' (KDF P cur None)) = Inr frx"
      using Cons.prems(2) Suc by simp
    have c: "\<forall>i<m'. \<exists>f. seed_fragment P (validator (count_comparison h)) content
               (derive_forward P i (KDF P cur None)) = Inr f \<and> f \<noteq> frx"
    proof (intro allI impI)
      fix i assume "i < m'"
      then have "Suc i < m" using Suc by simp
      with Cons.prems(3) show "\<exists>f. seed_fragment P (validator (count_comparison h)) content
               (derive_forward P i (KDF P cur None)) = Inr f \<and> f \<noteq> frx"
        by fastforce
    qed
    from Cons.IH[OF a b c] f Suc show ?thesis
      by (simp add: validate_mode_a_loop_Cons)
  qed
qed

lemma loop_a_reject:
  assumes "\<forall>i<length js. \<exists>f. seed_fragment P (validator h) content (derive_forward P i cur) = Inr f \<and> f \<noteq> frx"
  shows "fst (validate_mode_a_loop P frx content js cur h) = Inr (REJECT, None)"
  using assms
proof (induction js arbitrary: cur h)
  case Nil
  then show ?case by simp
next
  case (Cons j js)
  from Cons.prems obtain f where
    f: "seed_fragment P (validator h) content cur = Inr f" "f \<noteq> frx"
    by fastforce
  have c: "\<forall>i<length js. \<exists>f. seed_fragment P (validator (count_comparison h)) content
               (derive_forward P i (KDF P cur None)) = Inr f \<and> f \<noteq> frx"
  proof (intro allI impI)
    fix i assume "i < length js"
    then have "Suc i < length (j # js)" by simp
    with Cons.prems show "\<exists>f. seed_fragment P (validator (count_comparison h)) content
               (derive_forward P i (KDF P cur None)) = Inr f \<and> f \<noteq> frx"
      by fastforce
  qed
  from Cons.IH[OF c] f show ?case
    by (simp add: validate_mode_a_loop_Cons)
qed

lemma length_KDF [simp]: "length (KDF P s c) = 32"
  by (simp add: KDF_def)

lemma length_derive_forward:
  "length (derive_forward P i K) = (if i = 0 then length K else 32)"
  by (induction i arbitrary: K) auto

lemma length_prepare_content [simp]: "length (prepare_content P S True) = 32"
  by (simp add: prepare_content_def)

lemma seed_fragment_ok:
  assumes "provisioned v" "length C < 2 ^ 32" "length s < 2 ^ 32"
  shows "\<exists>f. seed_fragment P v C s = Inr f \<and> int (length f) = fv_fragment_length v div 8"
  unfolding seed_fragment_def
  using assms by (intro compute_fragment_ok) (auto simp: provisioned_def)

lemma chain_fragment_ok:
  assumes "provisioned v" "length C < 2 ^ 32" "length K < 2 ^ 32"
  shows "\<exists>f. seed_fragment P v C (derive_forward P i K) = Inr f
     \<and> int (length f) = fv_fragment_length v div 8"
  using assms by (intro seed_fragment_ok) (auto simp: length_derive_forward)

lemma ct_loop_matched:
  assumes "provisioned (validator h)" "length content < 2 ^ 32" "length cur < 2 ^ 32"
  shows "fst (ct_validate_mode_a_loop P frx content js cur (Some m) h) = Inr (ACCEPT, Some m)
   \<and> comparisons (fv_stats (validator (snd (ct_validate_mode_a_loop P frx content js cur (Some m) h))))
       = comparisons (fv_stats (validator h)) + int (length js)"
  using assms
proof (induction js arbitrary: cur h)
  case Nil
  then show ?case by simp
next
  case (Cons j js)
  from seed_fragment_ok[OF Cons.prems] obtain f where
    f: "seed_fragment P (validator h) content cur = Inr f" by blast
  have "provisioned (validator (count_comparison h))" using Cons.prems(1) by simp
  from Cons.IH[OF this Cons.prems(2), of "KDF P cur None"] f show ?case
    by (simp add: ct_validate_mode_a_loop_Cons)
qed

lemma ct_loop_unmatched:
  assumes "provisioned (validator h)" "length content < 2 ^ 32" "length cur < 2 ^ 32"
  shows "fst (ct_validate_mode_a_loop P frx content js cur None h)
       = fst (validate_mode_a_loop P frx content js cur h)
   \<and> comparisons (fv_stats (validator (snd (ct_validate_mode_a_loop P frx content js cur None h))))
       = comparisons (fv_stats (validator h)) + int (length js)"
  using assms
proof (induction js arbitrary: cur h)
  case Nil
  then show ?case by simp
next
  case (Cons j js)
  from seed_fragment_ok[OF Cons.prems] obtain f where
    f: "seed_fragment P (validator h) content cur = Inr f" by blast
  have p: "provisioned (validator (count_comparison h))" using Cons.prems(1) by simp
  from Cons.IH[OF p Cons.prems(2), of "KDF P cur None"]
    ct_loop_matched[OF p Cons.prems(2), of "KDF P cur None" P frx js j] f
  show ?case
    by (simp add: ct_validate_mode_a_loop_Cons validate_mode_a_loop_Cons)
qed


lemma build_A:
  "fb_mode b = ''A'' \<Longrightarrow> fb_seed b = Some s \<Longrightarrow> fb_domain b = fv_domain v \<Longrightarrow>
   fb_fragment_length b = fv_fragment_length v \<Longrightarrow> fb_use_keyed_mode b = fv_use_keyed_mode v \<Longrightarrow>
   build P b S False = seed_fragment P v (prepare_content P S True) s"
  by (simp add: build_def seed_fragment_def Let_def)

lemma window_scan:
  assumes p: "provisioned (validator h)" and c: "length content < 2 ^ 32"
    and K: "length K < 2 ^ 32"
    and F: "seed_fragment P (validator h) content (derive_forward P k K) = Inr F"
    and nc: "\<forall>i<min k (nat (fv_window_size (validator h)) + 1).
              seed_fragment P (validator h) content (derive_forward P i K) \<noteq> Inr F"
  shows "fst (validate_mode_a_loop P F content [t..t + fv_window_size (validator h)] K h) =
     Inr (if int k \<le> fv_window_size (validator h) then (ACCEPT, Some (t + int k))
          else (REJECT, None))"
proof -
  let ?w = "fv_window_size (validator h)"
  let ?js = "[t..t + ?w]"
  from p have w: "0 \<le> ?w" by (simp add: provisioned_def)
  then have len: "length ?js = nat ?w + 1" by simp
  have other: "\<exists>f. seed_fragment P (validator h) content (derive_forward P i K) = Inr f \<and> f \<noteq> F"
    if "i < min k (nat ?w + 1)" for i
    using chain_fragment_ok[OF p c K, of P i] nc that by auto
  show ?thesis
  proof (cases "int k \<le> ?w")
    case True
    then have m: "k < length ?js" "min k (nat ?w + 1) = k" using w by (simp_all add: len)
    have "fst (validate_mode_a_loop P F content ?js K h) = Inr (ACCEPT, Some (?js ! k))"
      using loop_a_accept[OF m(1) F] other m(2) by simp
    moreover have "?js ! k = t + int k" using True by (intro nth_upto) simp
    ultimately show ?thesis using True by simp
  next
    case False
    then have "min k (nat ?w + 1) = length ?js" using w by (simp add: len)
    then have "fst (validate_mode_a_loop P F content ?js K h) = Inr (REJECT, None)"
      using other by (intro loop_a_reject) simp
    with False show ?thesis by simp
  qed
qed

lemma validate_window:
  assumes A: "rs_mode (receiver h) = ''A''" and s: "rs_seed (receiver h) = Some K"
    and p: "provisioned (validator h)" and K: "length K < 2 ^ 32"
    and F: "seed_fragment P (validator h) (prepare_content P S True) (derive_forward P k K) = Inr F"
    and nc: "\<forall>i<min k (nat (fv_window_size (validator h)) + 1).
              seed_fragment P (validator h) (prepare_content P S True) (derive_forward P i K) \<noteq> Inr F"
  shows "fst (validate P F S False h) =
     Inr (if int k \<le> fv_window_size (validator h)
          then (ACCEPT, Some (rs_anchor (receiver h) + int k)) else (REJECT, None))"
proof -
  let ?h1 = "count_validation h"
  let ?C = "prepare_content P S True"
  let ?js = "[rs_anchor (receiver h)..rs_anchor (receiver h) + fv_window_size (validator h)]"
  have c: "length ?C < 2 ^ 32" by simp
  from chain_fragment_ok[OF p c K, of P k] F
  have lenF: "int (length F) = fv_fragment_length (validator h) div 8" by simp
  have p1: "provisioned (validator ?h1)" using p by simp
  have F1: "seed_fragment P (validator ?h1) ?C (derive_forward P k K) = Inr F" using F by simp
  have nc1: "\<forall>i<min k (nat (fv_window_size (validator ?h1)) + 1).
              seed_fragment P (validator ?h1) ?C (derive_forward P i K) \<noteq> Inr F"
    using nc by simp
  have scan: "fst (validate_mode_a_loop P F ?C ?js K ?h1) =
     Inr (if int k \<le> fv_window_size (validator h)
          then (ACCEPT, Some (rs_anchor (receiver h) + int k)) else (REJECT, None))"
    using window_scan[OF p1 c K F1 nc1, of "rs_anchor (receiver h)"] by simp
  have ct: "fst (ct_validate_mode_a_loop P F ?C ?js K None ?h1) =
       fst (validate_mode_a_loop P F ?C ?js K ?h1)"
    using ct_loop_unmatched[OF p1 c K] by simp
  show ?thesis
    using A s lenF scan ct
    by (simp add: validate_def validate_mode_a_def ct_validate_mode_a_def Let_def
        split: validator_class.splits)
qed

lemma example_fragment:
  assumes "length C < 2 ^ 32" "length s < 2 ^ 32"
  shows "compute_fragment example_prims [] C s 256 (Some s) = Inr (digest (if s = [] then 0 else 1))"
  using assms
  by (subst compute_fragment_def) (simp add: encode_ok extend_output.simps example_prims_def)

lemma example_aligned:
  "aligned example_builder example_heap []" "aligned example_builder narrow_heap []"
  "aligned example_builder failing_heap []"
  by (simp_all add: aligned_def example_builder_def example_heap_def narrow_heap_def failing_heap_def)

lemma example_provisioned:
  "provisioned (validator example_heap)" "provisioned (validator narrow_heap)"
  "provisioned (validator failing_heap)"
  by (simp_all add: provisioned_def example_heap_def narrow_heap_def failing_heap_def)

lemma example_seed_fragment:
  assumes "length C < 2 ^ 32" "length s < 2 ^ 32"
  shows "seed_fragment example_prims (validator example_heap) C s = Inr (digest (if s = [] then 0 else 1))"
    and "seed_fragment example_prims (validator narrow_heap) C s = Inr (digest (if s = [] then 0 else 1))"
    and "seed_fragment example_prims (validator failing_heap) C s = Inr (digest (if s = [] then 0 else 1))"
  using example_fragment[OF assms]
  by (simp_all add: seed_fragment_def example_heap_def narrow_heap_def failing_heap_def)






section \<open>Commit and the Mode B scan\<close>

lemma loop_a_accept_index:
  "fst (validate_mode_a_loop P frx content js cur h) = Inr (ACCEPT, Some j) \<Longrightarrow> j \<in> set js"
proof (induction js arbitrary: cur h)
  case Nil
  then show ?case by simp
next
  case (Cons a js)
  then show ?case
    by (auto simp: validate_mode_a_loop_Cons split: sum.splits if_splits)
qed

lemma ct_loop_accept_index:
  "fst (ct_validate_mode_a_loop P frx content js cur m h) = Inr (ACCEPT, Some j) \<Longrightarrow>
   j \<in> set js \<or> m = Some j"
proof (induction js arbitrary: cur m h)
  case Nil
  then show ?case by (auto split: if_splits)
next
  case (Cons a js)
  then show ?case
    by (fastforce simp: ct_validate_mode_a_loop_Cons split: sum.splits if_splits)
qed

lemma validate_accept_index:
  assumes "rs_mode (receiver h) = ''A''"
    and "fst (validate P frx content prepared h) = Inr (ACCEPT, Some j)"
  shows "rs_anchor (receiver h) \<le> j"
proof -
  let ?js = "[rs_anchor (receiver h)..rs_anchor (receiver h) + fv_window_size (validator h)]"
  from assms have "j \<in> set ?js"
    by (auto simp: validate_def validate_mode_a_def ct_validate_mode_a_def Let_def
        split: if_splits option.splits validator_class.splits
        dest: loop_a_accept_index ct_loop_accept_index)
  then show ?thesis by simp
qed

lemma advance_persist_failure:
  assumes "rs_mode (receiver h) = ''A''" and "rs_seed (receiver h) = Some K"
    and "path_set (rs_persistence_path (receiver h))" and "write_fails (disk h)"
    and "rs_anchor (receiver h) < t'"
  shows "advance t' (Some K') h =
     (Inl OSError, h\<lparr>receiver := (receiver h)\<lparr>rs_seed := Some K', rs_anchor := t'\<rparr>\<rparr>)"
  using assms
  by (simp add: advance_def persist_if_configured_def save_state_def Let_def)

lemma compute_fragment_unkeyed_length:
  "compute_fragment P D C Z l None = Inr F \<Longrightarrow> int (length F) = l div 8"
  by (auto simp: compute_fragment_def Let_def shake_digest_def split: if_splits sum.splits)

lemma validate_mode_b_loop_first:
  assumes "compute_fragment P (fv_domain (validator h)) content (evol j)
             (fv_fragment_length (validator h)) None = Inr F"
  shows "fst (validate_mode_b_loop P evol F content (j # js) h) = Inr (ACCEPT, Some j)
     \<and> comparisons (fv_stats (validator (snd (validate_mode_b_loop P evol F content (j # js) h))))
         = comparisons (fv_stats (validator h)) + 1"
  using assms by (simp add: Let_def constant_time_equal_iff)

lemma mode_b_example_fragment:
  "compute_fragment example_prims [] [] (counter_evol 0) 256 None = Inr (replicate 32 0)"
  by (simp add: compute_fragment_def encode_ok counter_evol_def shake_digest_def example_prims_def
      map_replicate_const)

section \<open>The claims\<close>

text \<open>
  C1 (round-trip acceptance). A Mode A sender and a receiver are aligned at the seed
  \<open>K\<close>: same index and anchor, same seed, same domain, fragment length and keyed
  setting. Under the provisioning constraints, and for a seed whose length fits the
  encoder's prefix, \<open>build(S)\<close> returns a fragment for every payload \<open>S\<close>, and
  \<open>validate\<close> of that fragment with \<open>S\<close> returns \<open>(ACCEPT, t)\<close>, for a validator of
  either class.
\<close>

theorem round_trip:
  assumes "aligned b h K" and "provisioned (validator h)" and "length K < 2 ^ 32"
  shows "\<exists>F. build P b S False = Inr F
     \<and> fst (validate P F S False h) = Inr (ACCEPT, Some (rs_anchor (receiver h)))"
proof -
  let ?C = "prepare_content P S True"
  have c: "length ?C < 2 ^ 32" by simp
  from chain_fragment_ok[OF assms(2) c assms(3), of P 0] obtain F where
    F: "seed_fragment P (validator h) ?C (derive_forward P 0 K) = Inr F" by blast
  from assms(1) have b: "build P b S False = seed_fragment P (validator h) ?C K"
    by (intro build_A) (simp_all add: aligned_def)
  from assms(1) have A: "rs_mode (receiver h) = ''A''" "rs_seed (receiver h) = Some K"
    by (simp_all add: aligned_def)
  from assms(2) have w: "0 \<le> fv_window_size (validator h)" by (simp add: provisioned_def)
  have "fst (validate P F S False h) = Inr (ACCEPT, Some (rs_anchor (receiver h)))"
    using validate_window[OF A assms(2,3) F] w by simp
  with b F show ?thesis by simp
qed

theorem round_trip_witness:
  "\<exists>F. build example_prims example_builder [1] False = Inr F
     \<and> fst (validate example_prims F [1] False example_heap) = Inr (ACCEPT, Some 0)"
  using round_trip [OF example_aligned(1) example_provisioned(1), of example_prims "[1]"]
  by (simp add: example_heap_def)




text \<open>
  C3 (receiver advance contract). For a receiver state that holds a seed whenever it
  is in Mode A (the constructor and \<open>_load_state\<close> keep it so): unless the write of
  \<open>_save_state\<close> raises, \<open>advance(t', K')\<close> returns the truth value of
  "\<open>t' > t\<close> and, in Mode A, \<open>K'\<close> is not None". When it returns False nothing has
  changed. When it returns True the anchor is \<open>t'\<close>, in Mode A the seed is \<open>K'\<close>, and
  outside Mode A the seed field is as before.
\<close>

theorem advance_contract:
  assumes "rs_mode (receiver h) = ''A'' \<longrightarrow> rs_seed (receiver h) \<noteq> None"
  shows
    "((path_set (rs_persistence_path (receiver h)) \<longrightarrow> \<not> write_fails (disk h)) \<longrightarrow>
       fst (advance t' K' h) =
         Inr (rs_anchor (receiver h) < t' \<and> (rs_mode (receiver h) = ''A'' \<longrightarrow> K' \<noteq> None)))
     \<and> (fst (advance t' K' h) = Inr False \<longrightarrow> snd (advance t' K' h) = h)
     \<and> (fst (advance t' K' h) = Inr True \<longrightarrow>
       rs_anchor (receiver h) < t'
       \<and> rs_anchor (receiver (snd (advance t' K' h))) = t'
       \<and> (rs_mode (receiver h) = ''A'' \<longrightarrow>
            K' \<noteq> None \<and> rs_seed (receiver (snd (advance t' K' h))) = K')
       \<and> (rs_mode (receiver h) \<noteq> ''A'' \<longrightarrow>
            rs_seed (receiver (snd (advance t' K' h))) = rs_seed (receiver h)))"
proof (cases "t' \<le> rs_anchor (receiver h)")
  case True
  then show ?thesis by (simp add: advance_def)
next
  case False
  show ?thesis
  proof (cases "rs_mode (receiver h) = ''A''")
    case A: True
    with assms obtain old where old: "rs_seed (receiver h) = Some old" by auto
    show ?thesis
    proof (cases K')
      case None
      with False A show ?thesis by (simp add: advance_def)
    next
      case (Some s)
      let ?h1 = "h\<lparr>receiver := (receiver h)\<lparr>rs_seed := Some s, rs_anchor := t'\<rparr>\<rparr>"
      from False A old have a: "advance t' (Some s) h = persist_if_configured ?h1"
        by (simp add: advance_def Let_def)
      show ?thesis
        unfolding Some
        using False A persist_ok[of ?h1] persist_receiver[of ?h1] persist_result[of ?h1]
        by (simp add: a)
    qed
  next
    case B: False
    let ?h1 = "h\<lparr>receiver := (receiver h)\<lparr>rs_anchor := t'\<rparr>\<rparr>"
    from False B have a: "advance t' K' h = persist_if_configured ?h1"
      by (simp add: advance_def)
    show ?thesis
      using False B persist_ok[of ?h1] persist_receiver[of ?h1] persist_result[of ?h1]
      by (simp add: a)
  qed
qed

theorem advance_contract_witness:
  "fst (advance 1 (Some [5]) example_heap) = Inr True
   \<and> rs_anchor (receiver (snd (advance 1 (Some [5]) example_heap))) = 1
   \<and> rs_seed (receiver (snd (advance 1 (Some [5]) example_heap))) = Some [5]
   \<and> fst (advance 0 (Some [5]) example_heap) = Inr False
   \<and> snd (advance 0 (Some [5]) example_heap) = example_heap"
proof -
  have e: "rs_mode (receiver example_heap) = ''A''" "rs_anchor (receiver example_heap) = 0"
    "rs_seed (receiver example_heap) = Some []" "\<not> write_fails (disk example_heap)"
    by (simp_all add: example_heap_def)
  show ?thesis
    using advance_contract [of example_heap 1 "Some [5]"] advance_contract [of example_heap 0 "Some [5]"]
    by (simp add: e)
qed

text \<open>
  C4 (commit atomicity) is not what the code does. When \<open>validate\<close> has matched at
  index \<open>j\<close> on a Mode A state with a persistence path and the write of
  \<open>_save_state\<close> fails, \<open>validate_and_commit\<close> does not return \<open>(ERROR, None)\<close>: the
  OSError of the write leaves \<open>advance\<close> and \<open>validate_and_commit\<close> uncaught, and the
  state in memory stays advanced, with the anchor \<open>j + 1\<close> and the seed of that index
  in place of the seed the call started with.
\<close>

theorem commit_persist_failure_not_rolled_back:
  assumes v: "fst (validate P F S prepared h) = Inr (ACCEPT, Some j)"
    and A: "rs_mode (receiver h) = ''A''" and s: "rs_seed (receiver h) = Some K"
    and p: "path_set (rs_persistence_path (receiver h))" and w: "write_fails (disk h)"
  shows "fst (validate_and_commit P F S prepared h) = Inl OSError
     \<and> rs_anchor (receiver (snd (validate_and_commit P F S prepared h))) = j + 1
     \<and> rs_seed (receiver (snd (validate_and_commit P F S prepared h))) =
         Some (derive_forward P (nat (j + 1 - rs_anchor (receiver h))) K)"
proof -
  obtain r h1 where vh: "validate P F S prepared h = (r, h1)" by (cases "validate P F S prepared h")
  with v have r: "r = Inr (ACCEPT, Some j)" by simp
  from validate_frame[of P F S prepared h] vh
  have f: "receiver h1 = receiver h" "disk h1 = disk h" by simp_all
  from validate_accept_index[OF A v] have j: "rs_anchor (receiver h) < j + 1" by simp
  have g: "get_seed_for_index P h1 (j + 1) =
     Inr (Some (derive_forward P (nat (j + 1 - rs_anchor (receiver h))) K))"
    using A s j by (simp add: get_seed_for_index_def f)
  have a: "advance (j + 1) (Some (derive_forward P (nat (j + 1 - rs_anchor (receiver h))) K)) h1 =
     (Inl OSError, h1\<lparr>receiver := (receiver h1)\<lparr>rs_seed :=
         Some (derive_forward P (nat (j + 1 - rs_anchor (receiver h))) K), rs_anchor := j + 1\<rparr>\<rparr>)"
    using A s p w j by (intro advance_persist_failure) (simp_all add: f)
  show ?thesis
    using A by (simp add: validate_and_commit_def vh r g a f)
qed

theorem commit_persist_failure_witness:
  "fst (validate_and_commit example_prims (digest 0) [1] False failing_heap) = Inl OSError
   \<and> rs_anchor (receiver failing_heap) = 0
   \<and> rs_anchor (receiver (snd (validate_and_commit example_prims (digest 0) [1] False failing_heap))) = 1
   \<and> rs_seed (receiver failing_heap) = Some []
   \<and> rs_seed (receiver (snd (validate_and_commit example_prims (digest 0) [1] False failing_heap))) =
       Some (KDF example_prims [] None)"
proof -
  have e: "rs_mode (receiver failing_heap) = ''A''" "rs_seed (receiver failing_heap) = Some []"
    "path_set (rs_persistence_path (receiver failing_heap))" "write_fails (disk failing_heap)"
    "rs_anchor (receiver failing_heap) = 0" "0 \<le> fv_window_size (validator failing_heap)"
    by (simp_all add: failing_heap_def example_heap_def path_set_def)
  have F: "seed_fragment example_prims (validator failing_heap)
             (prepare_content example_prims [1] True) (derive_forward example_prims 0 []) =
           Inr (digest 0)"
    by (simp add: example_seed_fragment(3))
  have v: "fst (validate example_prims (digest 0) [1] False failing_heap) = Inr (ACCEPT, Some 0)"
    using validate_window[OF e(1,2) example_provisioned(3) _ F] e(5,6) by simp
  show ?thesis
    using commit_persist_failure_not_rolled_back [OF v e(1-4)] by (simp add: e)
qed

text \<open>
  C5 (constant-time search uniformity) is not what the code does in Mode B.
  \<open>ConstantTimeValidator\<close> overrides \<open>_validate_mode_a\<close> only, so on a state that is
  not in Mode A it runs the early-stop loop of \<open>FragmentValidator\<close>. The counter
  \<open>comparisons\<close> is incremented once per iteration, next to the one
  \<open>compute_fragment\<close> and the one \<open>constant_time_equal\<close> of that iteration. For a
  fragment that matches at the anchor the call accepts after one iteration, fewer
  than the \<open>\<nu> + 1\<close> of the full window whenever \<open>\<nu> > 0\<close>.
\<close>

theorem constant_time_mode_b_stops_early:
  assumes c: "fv_class (validator h) = ConstantTimeValidatorClass"
    and B: "rs_mode (receiver h) \<noteq> ''A''"
    and e: "fv_evol_func (validator h) = Some evol"
    and w: "0 < fv_window_size (validator h)"
    and F: "compute_fragment P (fv_domain (validator h)) content (evol (rs_anchor (receiver h)))
             (fv_fragment_length (validator h)) None = Inr F"
  shows "fst (validate P F content True h) = Inr (ACCEPT, Some (rs_anchor (receiver h)))
     \<and> comparisons (fv_stats (validator (snd (validate P F content True h))))
         = comparisons (fv_stats (validator h)) + 1
     \<and> comparisons (fv_stats (validator (snd (validate P F content True h))))
         < comparisons (fv_stats (validator h)) + (fv_window_size (validator h) + 1)"
proof -
  let ?t = "rs_anchor (receiver h)"
  let ?h1 = "count_validation h"
  from w have win: "[?t..?t + fv_window_size (validator h)] = ?t # [?t + 1..?t + fv_window_size (validator h)]"
    by (intro upto_rec1) simp
  from F have F1: "compute_fragment P (fv_domain (validator ?h1)) content (evol ?t)
             (fv_fragment_length (validator ?h1)) None = Inr F"
    by simp
  from compute_fragment_unkeyed_length[OF F]
  have len: "int (length F) = fv_fragment_length (validator h) div 8" .
  have v: "validate P F content True h =
      validate_mode_b_loop P evol F content (?t # [?t + 1..?t + fv_window_size (validator h)]) ?h1"
    using B e len win by (simp add: validate_def validate_mode_b_def Let_def)
  show ?thesis
    unfolding v using validate_mode_b_loop_first[where evol=evol and j="?t", OF F1] w by simp
qed

theorem constant_time_mode_b_stops_early_witness:
  "fst (validate example_prims (replicate 32 0) [] True mode_b_heap) = Inr (ACCEPT, Some 0)
   \<and> comparisons (fv_stats (validator mode_b_heap)) = 0
   \<and> fv_window_size (validator mode_b_heap) = 7
   \<and> comparisons (fv_stats (validator
        (snd (validate example_prims (replicate 32 0) [] True mode_b_heap)))) = 1"
proof -
  have e: "fv_class (validator mode_b_heap) = ConstantTimeValidatorClass"
    "rs_mode (receiver mode_b_heap) \<noteq> ''A''"
    "fv_evol_func (validator mode_b_heap) = Some counter_evol"
    "0 < fv_window_size (validator mode_b_heap)"
    by (simp_all add: mode_b_heap_def)
  have f: "fv_domain (validator mode_b_heap) = []" "rs_anchor (receiver mode_b_heap) = 0"
    "fv_fragment_length (validator mode_b_heap) = 256"
    "comparisons (fv_stats (validator mode_b_heap)) = 0"
    "fv_window_size (validator mode_b_heap) = 7"
    by (simp_all add: mode_b_heap_def)
  have F: "compute_fragment example_prims (fv_domain (validator mode_b_heap)) []
             (counter_evol (rs_anchor (receiver mode_b_heap)))
             (fv_fragment_length (validator mode_b_heap)) None = Inr (replicate 32 0)"
    by (simp add: f mode_b_example_fragment)
  show ?thesis
    using constant_time_mode_b_stops_early [OF e F] by (simp add: f)
qed

text \<open>
  In Mode A the constant-time class does run the full window: a call that meets no
  exception makes \<open>\<nu> + 1\<close> iterations (each with one \<open>compute_fragment\<close>, one
  \<open>constant_time_equal\<close> and one \<open>KDF\<close>), whatever the fragment is.
\<close>

lemma ct_mode_a_full_window:
  assumes c: "fv_class (validator h) = ConstantTimeValidatorClass"
    and A: "rs_mode (receiver h) = ''A''" and s: "rs_seed (receiver h) = Some K"
    and p: "provisioned (validator h)" and K: "length K < 2 ^ 32" and C: "length content < 2 ^ 32"
    and len: "int (length F) = fv_fragment_length (validator h) div 8"
  shows "comparisons (fv_stats (validator (snd (validate P F content True h))))
         = comparisons (fv_stats (validator h)) + (fv_window_size (validator h) + 1)"
proof -
  let ?h1 = "count_validation h"
  let ?js = "[rs_anchor (receiver h)..rs_anchor (receiver h) + fv_window_size (validator h)]"
  from p have w: "0 \<le> fv_window_size (validator h)" by (simp add: provisioned_def)
  have p1: "provisioned (validator ?h1)" using p by simp
  have v: "validate P F content True h = ct_validate_mode_a_loop P F content ?js K None ?h1"
    using c A s len by (simp add: validate_def ct_validate_mode_a_def Let_def)
  show ?thesis
    unfolding v using ct_loop_unmatched[OF p1 C K, of P F ?js] w by simp
qed

text \<open>
  C6 (KDF context separation) does not hold as stated: the empty byte string is a
  context (it is not None), and \<open>seed + b""\<close> is \<open>seed\<close>, so \<open>KDF(K, b"")\<close> is
  \<open>KDF(K)\<close>, whatever the hash function is.
\<close>

theorem KDF_empty_context_counterexample: "\<forall>P. KDF P [] (Some []) = KDF P [] None"
  by (simp add: KDF_def KDF_message_def)

text \<open>
  C6, amended. With the empty context \<open>KDF(K, b"")\<close> equals \<open>KDF(K)\<close>. The message
  that \<open>KDF(K, c)\<close> authenticates under the key \<open>K\<close> equals the one of \<open>KDF(K)\<close> only
  for the empty \<open>c\<close>, and the two outputs are equal exactly when the two HMAC-SHA256
  tags are.
\<close>

theorem KDF_context:
  "KDF P K (Some []) = KDF P K None
   \<and> ((KDF_message K (Some c) = KDF_message K None) = (c = []))
   \<and> ((KDF P K (Some c) = KDF P K None) =
        (hmac_sha256 P K (KDF_message K (Some c)) = hmac_sha256 P K (KDF_message K None)))"
  using KDF_eq_iff[of P K "Some c" None]
  by (simp add: KDF_message_context) (simp add: KDF_def KDF_message_def)

text \<open>
  C7 (encoder injectivity). For byte strings of at most \<open>2^32 - 1\<close> bytes each,
  \<open>encode\<close> returns an encoding (the length prefixes fit their four bytes), and
  two triples with the same encoding are the same triple.
\<close>

theorem encode_injective:
  assumes "length D \<le> 2 ^ 32 - 1" "length C \<le> 2 ^ 32 - 1" "length Z \<le> 2 ^ 32 - 1"
    and "length D' \<le> 2 ^ 32 - 1" "length C' \<le> 2 ^ 32 - 1" "length Z' \<le> 2 ^ 32 - 1"
    and "encode D C Z = encode D' C' Z'"
  shows "(\<exists>e. encode D C Z = Inr e) \<and> D = D' \<and> C = C' \<and> Z = Z'"
proof -
  from assms(1-6) have b: "length D < 2 ^ 32" "length C < 2 ^ 32" "length Z < 2 ^ 32"
    "length D' < 2 ^ 32" "length C' < 2 ^ 32" "length Z' < 2 ^ 32"
    by simp_all
  from encode_ok[OF b(1-3)] have "\<exists>e. encode D C Z = Inr e" by simp
  moreover from encode_inj[OF b assms(7)] have "D = D' \<and> C = C' \<and> Z = Z'" .
  ultimately show ?thesis by simp
qed

theorem encode_injective_witness:
  "(\<exists>e. encode [1, 2] [] [3] = Inr e) \<and> length ([1, 2] :: bytes) \<le> 2 ^ 32 - 1"
  using encode_injective [of "[1, 2]" "[]" "[3]" "[1, 2]" "[]" "[3]"] by simp

text \<open>
  C8 (configuration errors at construction) does not hold for the fragment length:
  \<open>FragmentBuilder.__init__\<close> stores \<open>fragment_length\<close> unchecked, so a Mode A builder
  with a length of 128 bits is constructed.
\<close>

theorem builder_short_length_counterexample:
  "FragmentBuilder_init [] ''A'' (Some []) None 128 True =
     Inr \<lparr>fb_domain = [], fb_mode = ''A'', fb_fragment_length = 128, fb_use_keyed_mode = True,
          fb_index = 0, fb_seed = Some [], fb_evol_func = None\<rparr>"
  by (simp add: FragmentBuilder_init_def upper_A)

text \<open>
  C8, amended. The constructor raises ValueError in Mode A without a seed and in
  Mode B without an evolution function. A builder constructed with a fragment length
  below 256 bits exists, and every \<open>build\<close> on it raises ValueError (the check is the
  one of \<open>compute_fragment\<close>).
\<close>

theorem builder_configuration_errors:
  "(upper mode = ''A'' \<longrightarrow>
      FragmentBuilder_init domain mode None evol l keyed = Inl ValueError)
   \<and> (upper mode = ''B'' \<longrightarrow>
      FragmentBuilder_init domain mode seed None l keyed = Inl ValueError)
   \<and> (l < 256 \<and> FragmentBuilder_init domain mode seed evol l keyed = Inr b \<longrightarrow>
      build P b content prepared = Inl ValueError)"
proof (intro conjI impI)
  assume "l < 256 \<and> FragmentBuilder_init domain mode seed evol l keyed = Inr b"
  then show "build P b content prepared = Inl ValueError"
    using init_Inr_fields[of domain mode seed evol l keyed b] build_short_length[of b P content prepared]
    by simp
qed (simp_all add: FragmentBuilder_init_def)

theorem builder_configuration_errors_witness:
  "FragmentBuilder_init [] ''a'' None None 256 True = Inl ValueError
   \<and> FragmentBuilder_init [] ''b'' None None 256 True = Inl ValueError
   \<and> build example_prims
        \<lparr>fb_domain = [], fb_mode = ''A'', fb_fragment_length = 128, fb_use_keyed_mode = True,
         fb_index = 0, fb_seed = Some [], fb_evol_func = None\<rparr> [1] False = Inl ValueError"
proof -
  have i: "FragmentBuilder_init [] ''A'' (Some []) None 128 True =
     Inr \<lparr>fb_domain = [], fb_mode = ''A'', fb_fragment_length = 128, fb_use_keyed_mode = True,
          fb_index = 0, fb_seed = Some [], fb_evol_func = None\<rparr>"
    by (simp add: FragmentBuilder_init_def upper_A)
  show ?thesis
    using builder_configuration_errors [of "''a''" "[]" None 256 True None]
      builder_configuration_errors [of "''b''" "[]" None 256 True None]
      builder_configuration_errors [of "''A''" "[]" None 128 True "Some []" _ example_prims "[1]" False] i
    by (simp add: upper_a upper_b)
qed

text \<open>
  C9 (anti-rollback on load) does not hold as stated: \<open>ReceiverState._load_state\<close>
  meets a stored anchor of 5 with the anchor 10 in memory by returning normally, the
  state untouched; it raises nothing.
\<close>

theorem load_rollback_counterexample:
  "load_state rollback_fs rollback_state = (Inr (), rollback_state)"
  by (simp add: load_state_def rollback_fs_def rollback_state_def rollback_blob_def
      path_set_def path_exists_def)

text \<open>
  C9, amended. \<open>ReceiverState._load_state\<close>: a stored anchor (0 when the field is
  missing) strictly below the anchor in memory makes the call return normally with
  the state unchanged. \<open>SecureElementState._load_state\<close>, on an object whose counter
  is set: a stored rollback counter (0 when missing) strictly below the counter in
  memory makes the call raise SecurityError with the state unchanged.
\<close>

theorem load_refuses_rollback:
  "(path_set (rs_persistence_path st)
      \<and> files fs (the (rs_persistence_path st)) = Stored state
      \<and> (case b_anchor state of None \<Rightarrow> 0 | Some a \<Rightarrow> a) < rs_anchor st
    \<longrightarrow> load_state fs st = (Inr (), st))
   \<and> (path_set (rs_persistence_path se)
      \<and> files fs (the (rs_persistence_path se)) = Stored state
      \<and> rollback_counter se = Some current
      \<and> (case b_rollback_counter state of None \<Rightarrow> 0 | Some c \<Rightarrow> c) < current
    \<longrightarrow> se_load_state fs se = (Inl SecurityError, se))"
  by (auto simp: load_state_def se_load_state_def Let_def path_exists_def path_set_def
      split: option.splits)

theorem load_refuses_rollback_witness:
  "load_state rollback_fs rollback_state = (Inr (), rollback_state)
   \<and> se_load_state rollback_fs (rollback_se_state 4) = (Inl SecurityError, rollback_se_state 4)"
  using load_refuses_rollback [of rollback_state rollback_fs rollback_blob "rollback_se_state 4" 4]
  by (simp add: rollback_fs_def rollback_state_def rollback_blob_def rollback_se_state_def
      path_set_def)

text \<open>
  What the amended statement leaves open: \<open>SecureElementState._load_state\<close> compares
  the counters only. A stored object with counter 3 and anchor 5 is applied over a
  state with counter 2 and anchor 10.
\<close>

lemma se_load_applies_lower_anchor:
  "se_load_state rollback_fs (rollback_se_state 2) =
     (Inr (), (rollback_se_state 2)\<lparr>rs_anchor := 5, rs_seed := Some [7], rollback_counter := Some 3\<rparr>)"
  by (simp add: se_load_state_def rollback_fs_def rollback_se_state_def rollback_blob_def
      path_set_def path_exists_def)

text \<open>
  C10 (validation is read-only). \<open>validate\<close>, for a validator of either class and a
  state of either mode, leaves the receiver state as it was (mode, anchor, seed and
  persistence path), whether it returns ACCEPT, REJECT or ERROR or raises.
\<close>

theorem validate_read_only:
  "receiver (snd (validate P fragment_rx content content_is_prepared h)) = receiver h
   \<and> rs_anchor (receiver (snd (validate P fragment_rx content content_is_prepared h)))
       = rs_anchor (receiver h)
   \<and> rs_seed (receiver (snd (validate P fragment_rx content content_is_prepared h)))
       = rs_seed (receiver h)"
proof -
  let ?h1 = "count_validation h"
  let ?C = "if content_is_prepared then content else prepare_content P content True"
  let ?js = "[rs_anchor (receiver h)..rs_anchor (receiver h) + fv_window_size (validator h)]"
  have "receiver (snd (validate P fragment_rx content content_is_prepared h)) = receiver h"
  proof (cases "int (length fragment_rx) = fv_fragment_length (validator h) div 8")
    case False
    then show ?thesis by (simp add: validate_def Let_def)
  next
    case len: True
    show ?thesis
    proof (cases "rs_mode (receiver h) = ''A''")
      case A: True
      show ?thesis
      proof (cases "rs_seed (receiver h)")
        case None
        with len A show ?thesis
          by (simp add: validate_def validate_mode_a_def ct_validate_mode_a_def Let_def
              split: validator_class.splits)
      next
        case (Some K)
        show ?thesis
        proof (cases "fv_class (validator h)")
          case FragmentValidatorClass
          with len A Some
          have "validate P fragment_rx content content_is_prepared h =
                validate_mode_a_loop P fragment_rx ?C ?js K ?h1"
            by (simp add: validate_def validate_mode_a_def Let_def)
          then show ?thesis by (simp add: validate_mode_a_loop_frame)
        next
          case ConstantTimeValidatorClass
          with len A Some
          have "validate P fragment_rx content content_is_prepared h =
                ct_validate_mode_a_loop P fragment_rx ?C ?js K None ?h1"
            by (simp add: validate_def ct_validate_mode_a_def Let_def)
          then show ?thesis by (simp add: ct_validate_mode_a_loop_frame)
        qed
      qed
    next
      case B: False
      show ?thesis
      proof (cases "fv_evol_func (validator h)")
        case None
        with len B show ?thesis by (simp add: validate_def validate_mode_b_def Let_def)
      next
        case (Some evol)
        with len B
        have "validate P fragment_rx content content_is_prepared h =
              validate_mode_b_loop P evol fragment_rx ?C ?js ?h1"
          by (simp add: validate_def validate_mode_b_def Let_def)
        then show ?thesis by (simp add: validate_mode_b_loop_frame)
      qed
    qed
  qed
  then show ?thesis by simp
qed

end
